theory Spec2Isabelle
  imports Main "HOL-Library.Word"
begin

section \<open>The lexer of \<^verbatim>\<open>lisp_compiler.cpp\<close>\<close>

subsection \<open>Token codes\<close>

text \<open>
  The lexer returns an \<^verbatim>\<open>int\<close>: one of the negative codes of \<^verbatim>\<open>enum Token\<close>, or the
  character itself (0 to 255) when the character is unknown.
\<close>

definition tok_eof :: int where "tok_eof = -1"
definition tok_bracket_open :: int where "tok_bracket_open = -2"
definition tok_bracket_close :: int where "tok_bracket_close = -3"
definition tok_identifier :: int where "tok_identifier = -5"
definition tok_number :: int where "tok_number = -6"

lemmas tok_defs =
  tok_eof_def tok_bracket_open_def tok_bracket_close_def tok_identifier_def tok_number_def

subsection \<open>Character classes of \<^verbatim>\<open><cctype>\<close> in the C locale\<close>

definition EOF :: int where "EOF = -1"

definition isspace :: "int \<Rightarrow> bool" where
  "isspace c \<longleftrightarrow> c = 32 \<or> (9 \<le> c \<and> c \<le> 13)"

definition isdigit :: "int \<Rightarrow> bool" where
  "isdigit c \<longleftrightarrow> 48 \<le> c \<and> c \<le> 57"

definition isalpha :: "int \<Rightarrow> bool" where
  "isalpha c \<longleftrightarrow> (65 \<le> c \<and> c \<le> 90) \<or> (97 \<le> c \<and> c \<le> 122)"

definition isalnum :: "int \<Rightarrow> bool" where
  "isalnum c \<longleftrightarrow> isalpha c \<or> isdigit c"

lemmas ctype_defs = EOF_def isspace_def isdigit_def isalpha_def isalnum_def

subsection \<open>The abstract syntax tree and the backend values\<close>

text \<open>
  \<^verbatim>\<open>int\<close> is taken as 32 bits wide (the source itself writes \<^verbatim>\<open>sizeof(int)*8\<close>).
  A \<^verbatim>\<open>std::unique_ptr<ExprAST>\<close> is an \<open>ExprAST option\<close>, \<^verbatim>\<open>nullptr\<close> being \<open>None\<close>;
  an \<^verbatim>\<open>llvm::Value*\<close> is a \<open>Value option\<close> in the same way.
\<close>

datatype ExprAST =
    NumberExprAST "32 word"
  | IdentifierExprAST string
  | ListExprAST "ExprAST list"

datatype Value = ConstantInt "32 word"

subsection \<open>The global variables\<close>

text \<open>
  \<open>stdin\<close> is the unread part of standard input, \<open>stderr\<close> the strings written so far,
  one per \<^verbatim>\<open>fprintf\<close>. \<open>LastChar\<close> is the function-local static of \<^verbatim>\<open>gettok\<close>.
\<close>

record state =
  stdin :: "char list"
  stderr :: "string list"
  LastChar :: int
  IdentifierStr :: string
  NumVal :: "32 word"
  CurTok :: int
  NamedValues :: "string \<rightharpoonup> Value option"

definition init_state :: "char list \<Rightarrow> state" where
  "init_state inp =
     \<lparr>stdin = inp, stderr = [], LastChar = 32, IdentifierStr = [], NumVal = 0,
      CurTok = 0, NamedValues = Map.empty\<rparr>"

subsection \<open>Reading characters\<close>

definition getchar :: "char list \<Rightarrow> int \<times> char list" where
  "getchar inp = (case inp of [] \<Rightarrow> (EOF, []) | c # cs \<Rightarrow> (of_char c, cs))"

text \<open>
  \<^verbatim>\<open>while(isspace(LastChar)) LastChar = getchar();\<close>
  At the end of input \<^verbatim>\<open>getchar\<close> gives \<open>EOF\<close>, which is no whitespace, so the loop stops.
\<close>

fun skip_whitespace :: "int \<Rightarrow> char list \<Rightarrow> int \<times> char list" where
  "skip_whitespace lc [] = (if isspace lc then (EOF, []) else (lc, []))"
| "skip_whitespace lc (c # cs) =
     (if isspace lc then skip_whitespace (of_char c) cs else (lc, c # cs))"

text \<open>
  \<^verbatim>\<open>while(isalnum((LastChar = getchar()))) IdentifierStr += LastChar;\<close>
  The result is the string, the new \<open>LastChar\<close> and the unread input.
\<close>

fun read_identifier :: "string \<Rightarrow> char list \<Rightarrow> string \<times> int \<times> char list" where
  "read_identifier str [] = (str, EOF, [])"
| "read_identifier str (c # cs) =
     (if isalnum (of_char c) then read_identifier (str @ [c]) cs
      else (str, of_char c, cs))"

text \<open>
  \<^verbatim>\<open>do { NumStr += LastChar; LastChar = getchar(); } while (isdigit(LastChar));\<close>
\<close>

fun read_number :: "string \<Rightarrow> int \<Rightarrow> char list \<Rightarrow> string \<times> int \<times> char list" where
  "read_number str lc [] = (str @ [char_of lc], EOF, [])"
| "read_number str lc (c # cs) =
     (if isdigit (of_char c) then read_number (str @ [char_of lc]) (of_char c) cs
      else (str @ [char_of lc], of_char c, cs))"

text \<open>
  \<^verbatim>\<open>NumVal = strtod(NumStr.c_str(), nullptr);\<close> The string is a run of decimal digits, so
  \<^verbatim>\<open>strtod\<close> reads all of it; the \<^verbatim>\<open>double\<close> is then converted to \<^verbatim>\<open>int\<close>. Every value up
  to \<^verbatim>\<open>INT_MAX\<close> is a \<^verbatim>\<open>double\<close> and converts to itself. A larger value stays above
  \<^verbatim>\<open>INT_MAX\<close> after rounding, and C++ leaves its conversion undefined: the model takes
  what the x86-64 conversion instruction gives, \<^verbatim>\<open>INT_MIN\<close>.
\<close>

definition decimal :: "string \<Rightarrow> nat" where
  "decimal str = foldl (\<lambda>acc c. 10 * acc + (of_char c - 48)) 0 str"

definition strtod_to_int :: "string \<Rightarrow> 32 word" where
  "strtod_to_int str =
     (let v = decimal str in if v \<le> 2147483647 then of_nat v else 0x80000000)"

subsection \<open>\<^verbatim>\<open>gettok\<close>\<close>

definition gettok :: "state \<Rightarrow> int \<times> state" where
  "gettok s =
     (let (lc, inp) = skip_whitespace (LastChar s) (stdin s);
          s1 = s\<lparr>LastChar := lc, stdin := inp\<rparr>
      in if lc = of_char CHR ''('' then
           (tok_bracket_open, s1\<lparr>IdentifierStr := IdentifierStr s1 @ [char_of lc]\<rparr>)
         else if lc = of_char CHR '')'' then
           (tok_bracket_close, s1\<lparr>IdentifierStr := IdentifierStr s1 @ [char_of lc]\<rparr>)
         else if isalpha lc then
           (let (str, lc', inp') = read_identifier [char_of lc] inp
            in (tok_identifier, s1\<lparr>IdentifierStr := str, LastChar := lc', stdin := inp'\<rparr>))
         else if isdigit lc then
           (if lc = of_char CHR ''0'' then
              (tok_number, s1\<lparr>NumVal := strtod_to_int [char_of lc]\<rparr>)
            else
              (let (str, lc', inp') = read_number [] lc inp
               in (tok_number,
                   s1\<lparr>NumVal := strtod_to_int str, LastChar := lc', stdin := inp'\<rparr>)))
         else if lc = EOF then (tok_eof, s1)
         else
           (let (c, inp') = getchar inp
            in (lc, s1\<lparr>LastChar := c, stdin := inp'\<rparr>)))"

subsection \<open>Diagnostics\<close>

text \<open>
  \<^verbatim>\<open>Error\<close> writes one line to \<^verbatim>\<open>stderr\<close> and returns \<^verbatim>\<open>nullptr\<close>; \<^verbatim>\<open>ErrorV\<close> calls it and
  returns a null \<^verbatim>\<open>Value*\<close>. There is no error object and no error kind: a failure is the
  null pointer.
\<close>

definition Error :: "string \<Rightarrow> state \<Rightarrow> ExprAST option \<times> state" where
  "Error Str s = (None, s\<lparr>stderr := stderr s @ [''Error: '' @ Str @ [CHR 0x0A]]\<rparr>)"

definition ErrorV :: "string \<Rightarrow> state \<Rightarrow> Value option \<times> state" where
  "ErrorV Str s = (None, snd (Error Str s))"

section \<open>Code generation of the leaves\<close>

text \<open>
  \<^verbatim>\<open>NamedValues[Name]\<close> on a \<^verbatim>\<open>std::map\<close>: a key that is absent is inserted with a
  value-initialised (null) pointer, and the stored pointer is returned.
\<close>

definition map_index ::
  "(string \<rightharpoonup> Value option) \<Rightarrow> string \<Rightarrow> Value option \<times> (string \<rightharpoonup> Value option)" where
  "map_index m k = (case m k of None \<Rightarrow> (None, m(k \<mapsto> None)) | Some v \<Rightarrow> (v, m))"

definition NumberExprAST_codegen :: "32 word \<Rightarrow> state \<Rightarrow> Value option \<times> state" where
  "NumberExprAST_codegen Val s = (Some (ConstantInt Val), s)"

definition IdentifierExprAST_codegen :: "string \<Rightarrow> state \<Rightarrow> Value option \<times> state" where
  "IdentifierExprAST_codegen Name s =
     (let (V, m) = map_index (NamedValues s) Name;
          s1 = s\<lparr>NamedValues := m\<rparr>
      in if V = None then (V, snd (ErrorV ''Unknown variable name'' s1)) else (V, s1))"

section \<open>The parser\<close>

definition getNextToken :: "state \<Rightarrow> int \<times> state" where
  "getNextToken s = (let (t, s') = gettok s in (t, s'\<lparr>CurTok := t\<rparr>))"

definition ParseNumberExpr :: "state \<Rightarrow> ExprAST option \<times> state" where
  "ParseNumberExpr s = (Some (NumberExprAST (NumVal s)), snd (getNextToken s))"

definition ParseIdentifierExpr :: "state \<Rightarrow> ExprAST option \<times> state" where
  "ParseIdentifierExpr s = (Some (IdentifierExprAST (IdentifierStr s)), s)"

text \<open>
  \<^verbatim>\<open>ParseExpr\<close> and \<^verbatim>\<open>ParseListExpr\<close> call each other, and nothing in the source bounds the
  recursion. The first argument is fuel: every call uses one unit, and \<open>None\<close> says the
  fuel ran out before the call returned. \<open>ParseListLoop\<close> is the \<^verbatim>\<open>while(1)\<close> of
  \<^verbatim>\<open>ParseListExpr\<close>, with \<^verbatim>\<open>Items\<close> as its second argument. The source returns
  \<^verbatim>\<open>std::move(Items)\<close>, read here as the list node built from \<^verbatim>\<open>Items\<close>.
\<close>

fun ParseExpr :: "nat \<Rightarrow> state \<Rightarrow> (ExprAST option \<times> state) option"
  and ParseListExpr :: "nat \<Rightarrow> state \<Rightarrow> (ExprAST option \<times> state) option"
  and ParseListLoop :: "nat \<Rightarrow> ExprAST list \<Rightarrow> state \<Rightarrow> (ExprAST option \<times> state) option"
where
  "ParseExpr 0 s = None"
| "ParseExpr (Suc n) s =
     (if CurTok s = tok_identifier then Some (ParseIdentifierExpr s)
      else if CurTok s = tok_number then Some (ParseNumberExpr s)
      else if CurTok s = tok_bracket_open then ParseListExpr n s
      else Some (Error ''unknown token when expecting an expression'' s))"
| "ParseListExpr 0 s = None"
| "ParseListExpr (Suc n) s = ParseListLoop n [] (snd (getNextToken s))"
| "ParseListLoop 0 Items s = None"
| "ParseListLoop (Suc n) Items s =
     (case ParseExpr n s of
        None \<Rightarrow> None
      | Some (None, s') \<Rightarrow> Some (None, s')
      | Some (Some V, s') \<Rightarrow>
          if CurTok s' = tok_bracket_close
          then Some (Some (ListExprAST (Items @ [V])), snd (getNextToken s'))
          else ParseListLoop n (Items @ [V]) (snd (getNextToken s')))"

section \<open>The driver\<close>

text \<open>
  Every path through the body of the \<^verbatim>\<open>while(true)\<close> of \<^verbatim>\<open>main\<close> ends in a
  \<^verbatim>\<open>return\<close>: the \<^verbatim>\<open>tok_bracket_open\<close> case has no \<^verbatim>\<open>break\<close> and falls into
  \<^verbatim>\<open>default\<close>. So the body runs at most once, and \<open>main_loop\<close> is that body. The result
  is the exit code; \<open>None\<close> says that \<^verbatim>\<open>ParseListExpr\<close> did not return.
\<close>

definition cannot_process :: "int \<Rightarrow> string" where
  "cannot_process t =
     ''ERROR'' @ [CHR 0x09] @ ''Character can not be processed: '' @ [char_of t]"

definition main_loop :: "nat \<Rightarrow> state \<Rightarrow> (int \<times> state) option" where
  "main_loop fuel s0 =
     (let s = s0\<lparr>stderr := stderr s0 @ [''ready> '']\<rparr>
      in if CurTok s = tok_eof then Some (0, s)
         else if CurTok s = tok_bracket_open then
           (case ParseListExpr fuel s of
              None \<Rightarrow> None
            | Some (r, s') \<Rightarrow>
                Some (- 2, s'\<lparr>stderr := stderr s' @ [cannot_process (CurTok s')]\<rparr>))
         else Some (- 2, s\<lparr>stderr := stderr s @ [cannot_process (CurTok s)]\<rparr>))"

definition main :: "nat \<Rightarrow> char list \<Rightarrow> (int \<times> state) option" where
  "main fuel inp =
     (let s0 = init_state inp;
          s1 = s0\<lparr>stderr := stderr s0 @ [''ready> '']\<rparr>
      in main_loop fuel (snd (getNextToken s1)))"

text \<open>The state after one more call of \<^verbatim>\<open>gettok\<close>, for running the lexer repeatedly.\<close>

definition after_gettok :: "state \<Rightarrow> state" where
  "after_gettok s = snd (gettok s)"

text \<open>The line that \<^verbatim>\<open>Error\<close> writes for the one diagnostic of the parser.\<close>

definition parse_error_line :: string where
  "parse_error_line = ''Error: unknown token when expecting an expression'' @ [CHR 0x0A]"

text \<open>
  The end of input is reached: called again and again from \<open>s\<close>, \<^verbatim>\<open>gettok\<close> returns
  \<open>tok_eof\<close> after at most \<open>k\<close> other tokens, none of them a parenthesis.
\<close>

fun eof_within :: "nat \<Rightarrow> state \<Rightarrow> bool" where
  "eof_within 0 s = (fst (gettok s) = tok_eof)"
| "eof_within (Suc k) s =
     (let t = fst (gettok s)
      in if t = tok_eof then True
         else if t = tok_bracket_open \<or> t = tok_bracket_close then False
         else eof_within k (snd (gettok s)))"

text \<open>
  The loop of \<^verbatim>\<open>ParseListExpr\<close> returns the null pointer and has written the parser's
  diagnostic once.
\<close>

abbreviation loop_fails :: "nat \<Rightarrow> ExprAST list \<Rightarrow> state \<Rightarrow> bool" where
  "loop_fails n Items s \<equiv>
     \<exists>s'. ParseListLoop n Items s = Some (None, s') \<and>
       stderr s' = stderr s @ [parse_error_line]"

section \<open>Facts about the lexer\<close>

lemmas eval_simps = getNextToken_def gettok_def init_state_def ctype_defs tok_defs char_of_def
  strtod_to_int_def decimal_def getchar_def

lemma skip_whitespace_id: "\<not> isspace lc \<Longrightarrow> skip_whitespace lc inp = (lc, inp)"
  by (cases inp) simp_all

text \<open>
  A parenthesis and the digit \<^verbatim>\<open>0\<close> are recognised in \<open>LastChar\<close> but \<open>LastChar\<close> is not
  replaced by the next character, unlike in the branches for identifiers, for other
  numbers and for unknown characters.
\<close>

lemma gettok_open:
  "LastChar s = 40 \<Longrightarrow>
   gettok s = (tok_bracket_open, s\<lparr>IdentifierStr := IdentifierStr s @ ''(''\<rparr>)"
  by (cases s) (simp add: gettok_def skip_whitespace_id isspace_def char_of_def)

lemma gettok_close:
  "LastChar s = 41 \<Longrightarrow>
   gettok s = (tok_bracket_close, s\<lparr>IdentifierStr := IdentifierStr s @ '')''\<rparr>)"
  by (cases s) (simp add: gettok_def skip_whitespace_id isspace_def char_of_def)

lemma gettok_zero: "LastChar s = 48 \<Longrightarrow> gettok s = (tok_number, s\<lparr>NumVal := 0\<rparr>)"
  by (cases s)
    (simp add: gettok_def skip_whitespace_id ctype_defs char_of_def strtod_to_int_def
      decimal_def)

lemma getNextToken_open:
  "LastChar s = 40 \<Longrightarrow>
   getNextToken s =
     (tok_bracket_open,
      s\<lparr>IdentifierStr := IdentifierStr s @ ''('', CurTok := tok_bracket_open\<rparr>)"
  by (simp add: getNextToken_def gettok_open)

lemma iter_open: "LastChar s = 40 \<Longrightarrow> LastChar ((after_gettok ^^ n) s) = 40"
  by (induction n) (simp_all add: after_gettok_def gettok_open)

lemma iter_close: "LastChar s = 41 \<Longrightarrow> LastChar ((after_gettok ^^ n) s) = 41"
  by (induction n) (simp_all add: after_gettok_def gettok_close)

lemma iter_zero:
  "LastChar s = 48 \<Longrightarrow>
   LastChar ((after_gettok ^^ n) s) = 48 \<and> stdin ((after_gettok ^^ n) s) = stdin s"
  by (induction n) (simp_all add: after_gettok_def gettok_zero)

lemma gettok_stderr: "stderr (snd (gettok s)) = stderr s"
  by (simp add: gettok_def Let_def split: prod.splits)

lemma getNextToken_stderr: "stderr (snd (getNextToken s)) = stderr s"
  using gettok_stderr [of s] by (cases "gettok s") (simp add: getNextToken_def)

lemma gettok_eof: "LastChar s = EOF \<Longrightarrow> fst (gettok s) = tok_eof"
  by (simp add: gettok_def skip_whitespace_id ctype_defs tok_defs)

text \<open>The loop for a number takes every digit up to the end of the input.\<close>

lemma read_number_digits:
  "\<forall>c\<in>set cs. isdigit (of_char c) \<Longrightarrow>
   read_number str lc cs = (str @ char_of lc # cs, EOF, [])"
  by (induction cs arbitrary: str lc) simp_all

lemma sint_small: "v \<le> 2147483647 \<Longrightarrow> sint (of_nat v :: 32 word) = int v"
  by (simp add: signed_of_nat signed_take_bit_int_eq_self)

text \<open>\<^verbatim>\<open>gettok\<close> neither reads nor writes \<open>CurTok\<close>.\<close>

lemma gettok_CurTok:
  "gettok (s\<lparr>CurTok := t\<rparr>) = (fst (gettok s), (snd (gettok s))\<lparr>CurTok := t\<rparr>)"
  by (simp add: gettok_def Let_def split: prod.splits)

lemma eof_within_CurTok: "eof_within k (s\<lparr>CurTok := t\<rparr>) = eof_within k s"
  by (induction k arbitrary: s t) (simp_all add: gettok_CurTok Let_def)

lemma gettok_eof_LastChar: "fst (gettok s) = tok_eof \<Longrightarrow> LastChar (snd (gettok s)) = EOF"
  by (auto simp add: gettok_def Let_def tok_defs EOF_def split: prod.splits if_splits)

lemma gettok_at_EOF: "LastChar s = EOF \<Longrightarrow> LastChar (snd (gettok s)) = EOF"
  by (simp add: gettok_def skip_whitespace_id ctype_defs tok_defs)

lemma getNextToken_eq:
  "getNextToken s = (fst (gettok s), (snd (gettok s))\<lparr>CurTok := fst (gettok s)\<rparr>)"
  by (cases "gettok s") (simp add: getNextToken_def)


lemma last_char_eof: "LastChar s = EOF \<Longrightarrow> eof_within k s"
  by (cases k) (simp_all add: gettok_eof)

text \<open>
  A lexer that stands on a parenthesis or on the digit \<^verbatim>\<open>0\<close> never reaches the end of
  input.
\<close>

lemma stuck_never_eof:
  "LastChar s = 40 \<or> LastChar s = 41 \<or> LastChar s = 48 \<Longrightarrow> \<not> eof_within k s"
proof (induction k arbitrary: s)
  case 0
  then show ?case
    by (auto simp add: gettok_open gettok_close gettok_zero tok_defs)
next
  case (Suc k)
  from Suc.prems consider "LastChar s = 40" | "LastChar s = 41" | "LastChar s = 48"
    by blast
  then show ?case
  proof cases
    case 1
    then show ?thesis by (simp add: gettok_open tok_defs)
  next
    case 2
    then show ?thesis by (simp add: gettok_close tok_defs)
  next
    case 3
    then have "\<not> eof_within k (s\<lparr>NumVal := 0\<rparr>)"
      using Suc.IH [of "s\<lparr>NumVal := 0\<rparr>"] by simp
    then show ?thesis using 3 by (simp add: gettok_zero tok_defs)
  qed
qed

section \<open>Facts about the parser\<close>

text \<open>
  Once \<open>LastChar\<close> holds an opening parenthesis, every \<^verbatim>\<open>getNextToken\<close> gives
  \<open>tok_bracket_open\<close> again, \<^verbatim>\<open>ParseExpr\<close> calls \<^verbatim>\<open>ParseListExpr\<close>, which calls
  \<^verbatim>\<open>ParseExpr\<close>: no amount of fuel lets the call return.
\<close>

lemma open_diverges:
  "LastChar s = 40 \<Longrightarrow>
     ParseListExpr n s = None \<and>
     (CurTok s = tok_bracket_open \<longrightarrow>
        ParseListLoop n Items s = None \<and> ParseExpr n s = None)"
proof (induction n arbitrary: s Items)
  case 0
  show ?case by simp
next
  case (Suc n)
  let ?s = "s\<lparr>IdentifierStr := IdentifierStr s @ ''('', CurTok := tok_bracket_open\<rparr>"
  have s: "LastChar ?s = 40" "CurTok ?s = tok_bracket_open"
    using Suc.prems by simp_all
  have 1: "ParseListExpr (Suc n) s = None"
    using Suc.IH [OF s(1), of "[]"] s(2) by (simp add: getNextToken_open [OF Suc.prems])
  have 2: "ParseListLoop (Suc n) Items s = None" if "CurTok s = tok_bracket_open"
    using Suc.IH [OF Suc.prems, of Items] that by simp
  have 3: "ParseExpr (Suc n) s = None" if "CurTok s = tok_bracket_open"
    using Suc.IH [OF Suc.prems, of Items] that by (simp add: tok_defs)
  show ?case using 1 2 3 by simp
qed

lemma main_loop_open_diverges:
  "LastChar s = 40 \<Longrightarrow> CurTok s = tok_bracket_open \<Longrightarrow> main_loop n s = None"
  by (simp add: main_loop_def tok_defs open_diverges)

lemmas parse_simps = ParseIdentifierExpr_def ParseNumberExpr_def Error_def

text \<open>
  So \<^verbatim>\<open>main\<close> does not return on any input whose first character after the leading
  whitespace is an opening parenthesis.
\<close>

lemma main_open_diverges:
  assumes "fst (skip_whitespace 32 inp) = 40"
  shows "main n inp = None"
proof -
  obtain rest where r: "skip_whitespace 32 inp = (40, rest)"
    using assms by (cases "skip_whitespace 32 inp") simp
  have "getNextToken ((init_state inp)\<lparr>stderr := [''ready> '']\<rparr>) =
    (tok_bracket_open,
     (init_state inp)\<lparr>stderr := [''ready> ''], LastChar := 40, stdin := rest,
       IdentifierStr := ''('', CurTok := tok_bracket_open\<rparr>)"
    by (simp add: getNextToken_def gettok_def init_state_def r char_of_def)
  then show ?thesis
    by (simp add: main_def main_loop_open_diverges init_state_def)
qed

text \<open>An identifier as current token: the node is returned, the state is untouched.\<close>

lemma ParseExpr_identifier:
  "CurTok s = tok_identifier \<Longrightarrow>
   ParseExpr (Suc n) s = Some (Some (IdentifierExprAST (IdentifierStr s)), s)"
  by (simp add: ParseIdentifierExpr_def)

text \<open>
  \<^verbatim>\<open>main\<close> returns 0 only when the first token is the end of input: after a list that
  has been parsed it returns \<open>-2\<close>.
\<close>

lemma main_zero_only_at_eof:
  assumes "main n inp = Some (0, s)"
  shows "fst (gettok (init_state inp)) = tok_eof"
proof -
  let ?s = "(init_state inp)\<lparr>stderr := stderr (init_state inp) @ [''ready> '']\<rparr>"
  have "CurTok (snd (getNextToken ?s)) = tok_eof"
    using assms
    by (auto simp add: main_def main_loop_def Let_def split: if_splits option.splits)
  moreover have "CurTok (snd (getNextToken ?s)) = fst (gettok ?s)"
    by (cases "gettok ?s") (simp add: getNextToken_def)
  moreover have "fst (gettok ?s) = fst (gettok (init_state inp))"
    by (simp add: gettok_def Let_def init_state_def split: prod.splits)
  ultimately show ?thesis by simp
qed

text \<open>More fuel does not change a result.\<close>

lemma fuel_step:
  "(ParseExpr n s = Some x \<longrightarrow> ParseExpr (Suc n) s = Some x) \<and>
   (ParseListExpr n s = Some x \<longrightarrow> ParseListExpr (Suc n) s = Some x) \<and>
   (ParseListLoop n Items s = Some x \<longrightarrow> ParseListLoop (Suc n) Items s = Some x)"
proof (induction n arbitrary: s x Items)
  case 0
  show ?case by simp
next
  case (Suc n)
  have 1: "ParseExpr (Suc (Suc n)) s = Some x" if "ParseExpr (Suc n) s = Some x"
    using that Suc.IH [of s x] by (simp split: if_splits)
  have 2: "ParseListExpr (Suc (Suc n)) s = Some x" if "ParseListExpr (Suc n) s = Some x"
    using that Suc.IH [of "snd (getNextToken s)" x "[]"] by simp
  have 3: "ParseListLoop (Suc (Suc n)) Items s = Some x" if l: "ParseListLoop (Suc n) Items s = Some x"
  proof (cases "ParseExpr n s")
    case None
    then show ?thesis using l by simp
  next
    case (Some y)
    obtain r s' where y: "y = (r, s')" by (cases y)
    have e: "ParseExpr (Suc n) s = Some (r, s')"
      using Suc.IH [of s y] Some y by simp
    show ?thesis
    proof (cases r)
      case None
      then show ?thesis using l Some y e by (auto simp del: ParseExpr.simps)
    next
      case (Some V)
      show ?thesis
      proof (cases "CurTok s' = tok_bracket_close")
        case True
        then show ?thesis using l \<open>ParseExpr n s = Some y\<close> y e Some
          by (auto simp del: ParseExpr.simps)
      next
        case False
        then have "ParseListLoop n (Items @ [V]) (snd (getNextToken s')) = Some x"
          using l \<open>ParseExpr n s = Some y\<close> y Some by simp
        then have "ParseListLoop (Suc n) (Items @ [V]) (snd (getNextToken s')) = Some x"
          using Suc.IH [of "snd (getNextToken s')" x "Items @ [V]"] by blast
        then show ?thesis using False e Some by (simp del: ParseExpr.simps ParseListLoop.simps add: ParseListLoop.simps(2) [of "Suc n"])
      qed
    qed
  qed
  show ?case using 1 2 3 by blast
qed

lemma ParseExpr_fuel_add: "ParseExpr n s = Some x \<Longrightarrow> ParseExpr (n + k) s = Some x"
proof (induction k)
  case 0
  then show ?case by simp
next
  case (Suc k)
  then have "ParseExpr (n + k) s = Some x" by simp
  then have "ParseExpr (Suc (n + k)) s = Some x"
    using fuel_step [of "n + k" s x] by blast
  then show ?case by (simp del: ParseExpr.simps)
qed

lemma ParseExpr_fuel: "ParseExpr n s = Some x \<Longrightarrow> n \<le> m \<Longrightarrow> ParseExpr m s = Some x"
  using ParseExpr_fuel_add [of n s x "m - n"] by simp

text \<open>
  A call that returns has written the parser's diagnostic once if its result is the null
  pointer, and has written nothing otherwise; a list parse returns a list node or the
  null pointer.
\<close>

lemma parse_outcome:
  "(ParseExpr n s = Some (r, s1) \<longrightarrow>
      stderr s1 = stderr s @ (if r = None then [parse_error_line] else [])) \<and>
   (ParseListExpr n s = Some (r, s1) \<longrightarrow>
      stderr s1 = stderr s @ (if r = None then [parse_error_line] else []) \<and>
      (r = None \<or> (\<exists>xs. r = Some (ListExprAST xs)))) \<and>
   (ParseListLoop n Items s = Some (r, s1) \<longrightarrow>
      stderr s1 = stderr s @ (if r = None then [parse_error_line] else []) \<and>
      (r = None \<or> (\<exists>xs. r = Some (ListExprAST xs))))"
proof (induction n arbitrary: s r s1 Items)
  case 0
  show ?case by simp
next
  case (Suc n)
  have 1: "stderr s1 = stderr s @ (if r = None then [parse_error_line] else [])"
    if "ParseExpr (Suc n) s = Some (r, s1)"
    using that Suc.IH [of s r s1] getNextToken_stderr [of s]
    by (auto simp: parse_simps parse_error_line_def split: if_splits)
  have 2: "stderr s1 = stderr s @ (if r = None then [parse_error_line] else []) \<and>
      (r = None \<or> (\<exists>xs. r = Some (ListExprAST xs)))"
    if "ParseListExpr (Suc n) s = Some (r, s1)"
    using that Suc.IH [of "snd (getNextToken s)" r s1 "[]"] getNextToken_stderr [of s]
    by simp
  have 3: "stderr s1 = stderr s @ (if r = None then [parse_error_line] else []) \<and>
      (r = None \<or> (\<exists>xs. r = Some (ListExprAST xs)))"
    if l: "ParseListLoop (Suc n) Items s = Some (r, s1)"
  proof (cases "ParseExpr n s")
    case None
    then show ?thesis using l by simp
  next
    case (Some y)
    obtain r' s' where y: "y = (r', s')" by (cases y)
    have e: "stderr s' = stderr s @ (if r' = None then [parse_error_line] else [])"
      using Suc.IH [of s r' s'] Some y by simp
    show ?thesis
    proof (cases r')
      case None
      then show ?thesis using l Some y e by simp
    next
      case V: (Some V)
      show ?thesis
      proof (cases "CurTok s' = tok_bracket_close")
        case True
        then show ?thesis using l Some y e V getNextToken_stderr [of s'] by auto
      next
        case False
        then have "ParseListLoop n (Items @ [V]) (snd (getNextToken s')) = Some (r, s1)"
          using l Some y V by simp
        then show ?thesis
          using Suc.IH [of "snd (getNextToken s')" r s1 "Items @ [V]"] e V
            getNextToken_stderr [of s'] by simp
      qed
    qed
  qed
  show ?case using 1 2 3 by blast
qed

text \<open>
  When the end of input is reached, the loop fails: by induction on the number of
  tokens before the end of input, for any current token and any children collected.
\<close>

lemma ParseListLoop_fuel_add:
  "ParseListLoop n Items s = Some x \<Longrightarrow> ParseListLoop (n + k) Items s = Some x"
proof (induction k)
  case 0
  then show ?case by simp
next
  case (Suc k)
  then have "ParseListLoop (n + k) Items s = Some x" by simp
  then have "ParseListLoop (Suc (n + k)) Items s = Some x"
    using fuel_step [of "n + k" s x Items] by blast
  then show ?case by (simp del: ParseListLoop.simps)
qed

lemma loop_fails_fuel: "loop_fails n Items s \<Longrightarrow> n \<le> m \<Longrightarrow> loop_fails m Items s"
  using ParseListLoop_fuel_add [of n Items s _ "m - n"] by fastforce

lemma loop_fails_at_eof:
  assumes "CurTok s = tok_eof" and "2 \<le> m"
  shows "loop_fails m Items s"
proof -
  have "loop_fails (Suc (Suc 0)) Items s"
    using assms(1) by (simp add: tok_defs Error_def parse_error_line_def)
  then show ?thesis
    using assms(2) loop_fails_fuel [of "Suc (Suc 0)" Items s m] by simp
qed

lemma after_token:
  assumes "eof_within k s"
  shows "stderr (snd (getNextToken s)) = stderr s \<and>
    (CurTok (snd (getNextToken s)) = tok_eof \<and> LastChar (snd (getNextToken s)) = EOF \<or>
     (\<exists>j. k = Suc j \<and> eof_within j (snd (getNextToken s)) \<and>
        CurTok (snd (getNextToken s)) \<noteq> tok_bracket_close))"
proof (cases "fst (gettok s) = tok_eof")
  case True
  then show ?thesis
    by (simp add: getNextToken_eq gettok_stderr gettok_eof_LastChar)
next
  case False
  then obtain j where "k = Suc j" using assms by (cases k) simp_all
  then show ?thesis using assms False
    by (simp add: getNextToken_eq gettok_stderr eof_within_CurTok Let_def split: if_splits)
qed

lemma after_token_at_EOF:
  assumes "LastChar s = EOF"
  shows "stderr (snd (getNextToken s)) = stderr s \<and> CurTok (snd (getNextToken s)) = tok_eof"
  using assms by (simp add: getNextToken_eq gettok_stderr gettok_eof)

lemma eof_loop_fails:
  "eof_within k s \<Longrightarrow> loop_fails (3 * k + 5) Items s"
proof (induction k arbitrary: s Items rule: less_induct)
  case (less k)
  define m2 where "m2 = 3 * k + 2"
  define m1 where "m1 = Suc m2"
  define m where "m = Suc m1"
  have N: "3 * k + 5 = Suc m" and m_ge: "3 * k + 2 \<le> m" "2 \<le> m" and m2_ge: "2 \<le> m2"
    by (simp_all add: m_def m1_def m2_def)
  have next1: "loop_fails m Its (snd (getNextToken u))" if u: "eof_within j u" and j: "j \<le> k" for u j Its
  proof -
    from after_token [OF u] consider
      (eof) "CurTok (snd (getNextToken u)) = tok_eof"
      | (more) i where "j = Suc i" "eof_within i (snd (getNextToken u))"
      by blast
    then show ?thesis
    proof cases
      case eof
      then show ?thesis using m_ge(2) by (rule loop_fails_at_eof)
    next
      case more
      then have "i < k" using j by simp
      then have "loop_fails (3 * i + 5) Its (snd (getNextToken u))"
        using less.IH [OF _ more(2)] by blast
      moreover have "3 * i + 5 \<le> m" using \<open>i < k\<close> m_ge(1) by simp
      ultimately show ?thesis using loop_fails_fuel by blast
    qed
  qed
  show ?case
  proof (cases "CurTok s = tok_identifier")
    case True
    have "ParseExpr m s = Some (Some (IdentifierExprAST (IdentifierStr s)), s)"
      unfolding m_def using True by (rule ParseExpr_identifier)
    moreover have "CurTok s \<noteq> tok_bracket_close" using True by (simp add: tok_defs)
    ultimately have "ParseListLoop (Suc m) Items s =
      ParseListLoop m (Items @ [IdentifierExprAST (IdentifierStr s)]) (snd (getNextToken s))"
      by (simp del: ParseExpr.simps)
    moreover have "stderr (snd (getNextToken s)) = stderr s"
      by (rule getNextToken_stderr)
    ultimately show ?thesis
      unfolding N using next1 [OF less.prems, of "Items @ [IdentifierExprAST (IdentifierStr s)]"]
      by simp
  next
    case notid: False
    show ?thesis
    proof (cases "CurTok s = tok_number")
      case True
      let ?s1 = "snd (getNextToken s)"
      have e: "ParseExpr m s = Some (Some (NumberExprAST (NumVal s)), ?s1)"
        unfolding m_def using True by (simp add: tok_defs ParseNumberExpr_def)
      have err: "stderr (snd (getNextToken ?s1)) = stderr s"
        by (simp add: getNextToken_stderr)
      from after_token [OF less.prems] consider
        (eof) "CurTok ?s1 = tok_eof" "LastChar ?s1 = EOF"
        | (more) i where "k = Suc i" "eof_within i ?s1" "CurTok ?s1 \<noteq> tok_bracket_close"
        by blast
      then show ?thesis
      proof cases
        case eof
        have nc: "CurTok ?s1 \<noteq> tok_bracket_close" using eof(1) by (simp add: tok_defs)
        have "CurTok (snd (getNextToken ?s1)) = tok_eof"
          using after_token_at_EOF [OF eof(2)] by simp
        then have "loop_fails m (Items @ [NumberExprAST (NumVal s)]) (snd (getNextToken ?s1))"
          using m_ge(2) by (rule loop_fails_at_eof)
        then show ?thesis
          unfolding N using e nc err by (simp del: ParseExpr.simps)
      next
        case more
        have "loop_fails m (Items @ [NumberExprAST (NumVal s)]) (snd (getNextToken ?s1))"
          using next1 [OF more(2)] more(1) by simp
        then show ?thesis
          unfolding N using e more(3) err by (simp del: ParseExpr.simps)
      qed
    next
      case notnum: False
      show ?thesis
      proof (cases "CurTok s = tok_bracket_open")
        case True
        have "loop_fails m2 [] (snd (getNextToken s))"
        proof -
          from after_token [OF less.prems] consider
            (eof) "CurTok (snd (getNextToken s)) = tok_eof"
            | (more) i where "k = Suc i" "eof_within i (snd (getNextToken s))"
            by blast
          then show ?thesis
          proof cases
            case eof
            then show ?thesis using m2_ge by (rule loop_fails_at_eof)
          next
            case more
            then have "loop_fails (3 * i + 5) [] (snd (getNextToken s))"
              using less.IH [of i "snd (getNextToken s)" "[]"] by blast
            moreover have "3 * i + 5 \<le> m2" using more(1) by (simp add: m2_def)
            ultimately show ?thesis using loop_fails_fuel by blast
          qed
        qed
        then obtain s' where s': "ParseListLoop m2 [] (snd (getNextToken s)) = Some (None, s')"
          "stderr s' = stderr s @ [parse_error_line]"
          by (auto simp: getNextToken_stderr)
        have "ParseListExpr m1 s = Some (None, s')"
          unfolding m1_def using s'(1) by simp
        then have "ParseExpr m s = Some (None, s')"
          unfolding m_def using True notid notnum by (simp del: ParseListExpr.simps)
        then show ?thesis
          unfolding N using s'(2) by (simp del: ParseExpr.simps)
      next
        case False
        then have "ParseExpr m s = Some (Error ''unknown token when expecting an expression'' s)"
          unfolding m_def using notid notnum by simp
        then show ?thesis
          unfolding N by (simp del: ParseExpr.simps add: Error_def parse_error_line_def)
      qed
    qed
  qed
qed


section \<open>The claims\<close>

text \<open>
  C1. The claim: with an identifier as the current token, \<^verbatim>\<open>ParseExpr\<close> returns the
  identifier node and advances to the next token. The code, on the input \<^verbatim>\<open>a b\<close>: the
  node for \<^verbatim>\<open>a\<close> is returned and the state is the one before the call, so the current
  token is still the identifier (\<^verbatim>\<open>ParseIdentifierExpr\<close> does not call
  \<^verbatim>\<open>getNextToken\<close>, where \<^verbatim>\<open>ParseNumberExpr\<close> does).
\<close>

theorem ParseExpr_identifier_no_advance:
  "CurTok (snd (getNextToken (init_state ''a b''))) = tok_identifier \<and>
   (\<forall>n. ParseExpr (Suc n) (snd (getNextToken (init_state ''a b''))) =
     Some (Some (IdentifierExprAST ''a''), snd (getNextToken (init_state ''a b''))))"
  by (simp add: eval_simps ParseIdentifierExpr_def)

text \<open>
  C2. The claim: after \<^verbatim>\<open>(\<close> or \<^verbatim>\<open>)\<close> the lexer has moved past that character, so the
  next call classifies the character after it. The code, on the inputs \<^verbatim>\<open>()\<close> and
  \<^verbatim>\<open>)(\<close>: the first call returns the parenthesis, and so does every later call.
\<close>

theorem gettok_paren_not_consumed:
  "(\<forall>n. fst (gettok ((after_gettok ^^ Suc n) (init_state ''()''))) = tok_bracket_open) \<and>
   (\<forall>n. fst (gettok ((after_gettok ^^ Suc n) (init_state '')(''))) = tok_bracket_close) \<and>
   fst (gettok (init_state ''()'')) = tok_bracket_open \<and>
   fst (gettok (init_state '')('')) = tok_bracket_close"
proof -
  have a: "LastChar (after_gettok (init_state ''()'')) = 40"
    by (simp add: after_gettok_def eval_simps)
  have b: "LastChar (after_gettok (init_state '')('')) = 41"
    by (simp add: after_gettok_def eval_simps)
  have "fst (gettok ((after_gettok ^^ Suc n) (init_state ''()''))) = tok_bracket_open" for n
    using iter_open [OF a, of n] by (simp add: gettok_open funpow_swap1)
  moreover
  have "fst (gettok ((after_gettok ^^ Suc n) (init_state '')(''))) = tok_bracket_close" for n
    using iter_close [OF b, of n] by (simp add: gettok_close funpow_swap1)
  moreover have "fst (gettok (init_state ''()'')) = tok_bracket_open"
    by (simp add: eval_simps)
  moreover have "fst (gettok (init_state '')('')) = tok_bracket_close"
    by (simp add: eval_simps)
  ultimately show ?thesis by blast
qed

text \<open>
  C3. The claim: the digit \<^verbatim>\<open>0\<close> is one token and is consumed, so \<^verbatim>\<open>007\<close> is lexed as
  the numbers 0, 0, 7 and then the end of input. The code, on \<^verbatim>\<open>007\<close>: every call
  returns a number, its value is 0, and the unread input stays \<^verbatim>\<open>07\<close>; neither 7 nor the
  end of input is ever returned.
\<close>

theorem gettok_zero_not_consumed:
  "fst (gettok ((after_gettok ^^ n) (init_state ''007''))) = tok_number \<and>
   NumVal ((after_gettok ^^ Suc n) (init_state ''007'')) = 0 \<and>
   stdin ((after_gettok ^^ Suc n) (init_state ''007'')) = ''07''"
proof -
  have a: "LastChar (after_gettok (init_state ''007'')) = 48"
    "stdin (after_gettok (init_state ''007'')) = ''07''"
    by (simp_all add: after_gettok_def eval_simps)
  have b: "LastChar ((after_gettok ^^ Suc n) (init_state ''007'')) = 48 \<and>
    stdin ((after_gettok ^^ Suc n) (init_state ''007'')) = ''07''" for n
    using iter_zero [OF a(1), of n] a(2) by (simp add: funpow_swap1)
  have c: "fst (gettok ((after_gettok ^^ n) (init_state ''007''))) = tok_number"
  proof (cases n)
    case 0
    then show ?thesis by (simp add: eval_simps)
  next
    case (Suc k)
    then show ?thesis using b [of k] by (simp add: gettok_zero)
  qed
  have d: "NumVal ((after_gettok ^^ Suc n) (init_state ''007'')) = 0"
  proof (cases n)
    case 0
    then show ?thesis by (simp add: after_gettok_def eval_simps)
  next
    case (Suc k)
    then show ?thesis using b [of k] by (simp add: after_gettok_def gettok_zero)
  qed
  show ?thesis using b c d by simp
qed

text \<open>
  C4. The claim: \<^verbatim>\<open>()\<close> is parsed to a list node without children. The code, on the
  input \<^verbatim>\<open>()\<close>: \<^verbatim>\<open>main\<close> never returns, since the lexer keeps returning the opening
  parenthesis and \<^verbatim>\<open>ParseListExpr\<close> calls itself through \<^verbatim>\<open>ParseExpr\<close> without end.
  The second part: started where the opening parenthesis is the current token and
  \<^verbatim>\<open>)\<close> is the unread input, \<^verbatim>\<open>ParseListExpr\<close> asks for a child before it looks for
  the closing parenthesis, and returns the null pointer.
\<close>

theorem empty_list_not_parsed:
  "(\<forall>n. main n ''()'' = None) \<and>
   (\<forall>n. map_option fst
      (ParseListExpr (Suc (Suc (Suc n))) ((init_state '')'')\<lparr>CurTok := tok_bracket_open\<rparr>)) =
      Some None)"
  by (simp add: main_def main_loop_open_diverges eval_simps parse_simps)

text \<open>
  C5. The claim: \<^verbatim>\<open>(a 1 2)\<close> is parsed to the list of \<^verbatim>\<open>a\<close>, 1 and 2, and between two
  children no token is consumed. The code, on the input \<^verbatim>\<open>(a 1 2)\<close>: \<^verbatim>\<open>main\<close> never
  returns. The second part: started where the opening parenthesis is the current token
  and \<^verbatim>\<open>a 1 2)\<close> is the unread input, the loop calls \<^verbatim>\<open>getNextToken\<close> after every child;
  after the number 1, which has advanced to 2 by itself, this drops the 2, the closing
  parenthesis is taken for a child, and the result is the null pointer.
\<close>

theorem list_a_1_2_not_parsed:
  "(\<forall>n. main n ''(a 1 2)'' = None) \<and>
   (\<forall>n. map_option fst
      (ParseListExpr (Suc (Suc (Suc (Suc (Suc n)))))
         ((init_state ''a 1 2)'')\<lparr>CurTok := tok_bracket_open\<rparr>)) = Some None)"
  by (simp add: main_def main_loop_open_diverges eval_simps parse_simps)

text \<open>
  C6. The claim: when the input ends inside a list, the parse fails with the error kind
  \<^verbatim>\<open>UnterminatedList\<close>. The code has one failure value, the null pointer, and one parse
  diagnostic. Started where the opening parenthesis is the current token and \<^verbatim>\<open>a b\<close> is
  the unread input, \<^verbatim>\<open>ParseListExpr\<close> returns the null pointer and the line written is
  that of an unexpected token.
\<close>

theorem unterminated_list_counterexample:
  "ParseListExpr (Suc (Suc (Suc (Suc (Suc 0)))))
     ((init_state ''a b'')\<lparr>CurTok := tok_bracket_open\<rparr>) =
   Some (None,
     \<lparr>stdin = [],
      stderr = [''Error: unknown token when expecting an expression'' @ [CHR 0x0A]],
      LastChar = EOF, IdentifierStr = ''b'', NumVal = 0, CurTok = tok_eof,
      NamedValues = Map.empty\<rparr>)"
  by (simp add: eval_simps parse_simps)

text \<open>
  C6, as amended: whenever the end of input is reached while a list is open, the list
  parse fails with the parser's one diagnostic. That is: if the lexer, from the state
  \<open>s\<close>, returns the end of input after at most \<open>k\<close> other tokens, none of them a
  parenthesis, then both the loop of \<^verbatim>\<open>ParseListExpr\<close>, entered in \<open>s\<close> with any current
  token and any children collected, and \<^verbatim>\<open>ParseListExpr\<close> itself return the null
  pointer, and what they have written is the line for an unknown token, once.
\<close>

theorem eof_reached_inside_list:
  assumes "eof_within k s"
  shows "(\<exists>s'. ParseListLoop (3 * k + 5 + n) Items s = Some (None, s') \<and>
            stderr s' = stderr s @ [parse_error_line]) \<and>
         (\<exists>s'. ParseListExpr (3 * k + 5 + n) s = Some (None, s') \<and>
            stderr s' = stderr s @ [parse_error_line])"
proof -
  have a: "loop_fails (3 * k + 5 + n) Items s"
    using eof_loop_fails [OF assms, of Items] loop_fails_fuel by (meson le_add1)
  have "loop_fails (3 * k + 4 + n) [] (snd (getNextToken s))"
  proof -
    from after_token [OF assms] consider
      (eof) "CurTok (snd (getNextToken s)) = tok_eof"
      | (more) i where "k = Suc i" "eof_within i (snd (getNextToken s))"
      by blast
    then show ?thesis
    proof cases
      case eof
      then show ?thesis by (rule loop_fails_at_eof) simp
    next
      case more
      have "loop_fails (3 * i + 5) [] (snd (getNextToken s))"
        using eof_loop_fails [OF more(2)] by blast
      moreover have "3 * i + 5 \<le> 3 * k + 4 + n" using more(1) by simp
      ultimately show ?thesis using loop_fails_fuel by blast
    qed
  qed
  moreover have "ParseListExpr (3 * k + 5 + n) s =
      ParseListLoop (3 * k + 4 + n) [] (snd (getNextToken s))"
  proof -
    have "3 * k + 5 + n = Suc (3 * k + 4 + n)" by simp
    then show ?thesis by (simp only: ParseListExpr.simps)
  qed
  ultimately have b: "\<exists>s'. ParseListExpr (3 * k + 5 + n) s = Some (None, s') \<and>
            stderr s' = stderr s @ [parse_error_line]"
    by (simp add: getNextToken_stderr)
  show ?thesis using a b by blast
qed

theorem eof_reached_inside_list_witness:
  "eof_within (Suc (Suc 0)) ((init_state ''a b'')\<lparr>CurTok := tok_bracket_open\<rparr>) \<and>
   (\<exists>s'. ParseListLoop (3 * Suc (Suc 0) + 5 + 0) [NumberExprAST 7]
             ((init_state ''a b'')\<lparr>CurTok := tok_bracket_open\<rparr>) = Some (None, s') \<and>
          stderr s' = stderr ((init_state ''a b'')\<lparr>CurTok := tok_bracket_open\<rparr>) @ [parse_error_line]) \<and>
   (\<exists>s'. ParseListExpr (3 * Suc (Suc 0) + 5 + 0)
             ((init_state ''a b'')\<lparr>CurTok := tok_bracket_open\<rparr>) = Some (None, s') \<and>
          stderr s' = stderr ((init_state ''a b'')\<lparr>CurTok := tok_bracket_open\<rparr>) @ [parse_error_line])"
proof -
  have h: "eof_within (Suc (Suc 0)) ((init_state ''a b'')\<lparr>CurTok := tok_bracket_open\<rparr>)"
    by (simp add: eval_simps)
  show ?thesis
    using h eof_reached_inside_list [OF h, of 0 "[NumberExprAST 7]"] by blast
qed

text \<open>
  C7. The claim: the driver parses one top-level list after the other and ends normally
  at the end of input. The code, on the input \<^verbatim>\<open>(1)\<close>: \<^verbatim>\<open>main\<close> never returns. The second
  part: started where the opening parenthesis is the current token and \<^verbatim>\<open>1)\<close> is the
  unread input, \<^verbatim>\<open>ParseListExpr\<close> returns the list of 1, and the driver, whose
  \<^verbatim>\<open>tok_bracket_open\<close> case has no \<^verbatim>\<open>break\<close>, goes on into \<^verbatim>\<open>default\<close> and returns
  \<open>-2\<close>.
\<close>

theorem driver_stops_after_first_list:
  "(\<forall>n. main n ''(1)'' = None) \<and>
   (\<forall>n. map_option fst
      (ParseListExpr (Suc (Suc (Suc n))) ((init_state ''1)'')\<lparr>CurTok := tok_bracket_open\<rparr>)) =
      Some (Some (ListExprAST [NumberExprAST 1]))) \<and>
   (\<forall>n. map_option fst
      (main_loop (Suc (Suc (Suc n))) ((init_state ''1)'')\<lparr>CurTok := tok_bracket_open\<rparr>)) =
      Some (- 2))"
proof -
  have "main n ''(1)'' = None" for n
    by (simp add: main_def main_loop_open_diverges eval_simps)
  moreover have "map_option fst
      (ParseListExpr (Suc (Suc (Suc n))) ((init_state ''1)'')\<lparr>CurTok := tok_bracket_open\<rparr>)) =
      Some (Some (ListExprAST [NumberExprAST 1]))" for n
    by (simp add: eval_simps parse_simps)
  moreover have "map_option fst
      (main_loop (Suc (Suc (Suc n))) ((init_state ''1)'')\<lparr>CurTok := tok_bracket_open\<rparr>)) =
      Some (- 2)" for n
    by (simp add: main_loop_def eval_simps parse_simps)
  ultimately show ?thesis by blast
qed

text \<open>
  C8. The claim: a digit run that starts with a digit from 1 to 9 is one number token
  whose value is the decimal value of the run. \<^verbatim>\<open>NumVal\<close> is an \<^verbatim>\<open>int\<close>: on the input
  \<^verbatim>\<open>2147483648\<close> the token is a number, and its value is not 2147483648.
\<close>

theorem large_number_counterexample:
  "fst (gettok (init_state ''2147483648'')) = tok_number \<and>
   decimal ''2147483648'' = 2147483648 \<and>
   sint (NumVal (snd (gettok (init_state ''2147483648'')))) \<noteq> 2147483648"
  by (simp add: eval_simps)

text \<open>
  C8, as amended: if the whole input is a digit run that starts with a digit from 1 to 9
  and whose decimal value is at most 2147483647, the first call of \<^verbatim>\<open>gettok\<close> returns a
  number token, \<^verbatim>\<open>NumVal\<close> is the decimal value of the run, the input is used up, and the
  next call returns the end of input.
\<close>

theorem gettok_decimal_run:
  assumes "isdigit (of_char d)" and "d \<noteq> CHR ''0''"
    and "\<forall>c\<in>set ds. isdigit (of_char c)"
    and "decimal (d # ds) \<le> 2147483647"
  shows "fst (gettok (init_state (d # ds))) = tok_number \<and>
    sint (NumVal (snd (gettok (init_state (d # ds))))) = int (decimal (d # ds)) \<and>
    stdin (snd (gettok (init_state (d # ds)))) = [] \<and>
    fst (gettok (snd (gettok (init_state (d # ds))))) = tok_eof"
proof -
  let ?c = "of_char d :: int"
  have c: "48 \<le> ?c" "?c \<le> 57"
    using assms(1) by (simp_all add: isdigit_def)
  have "?c \<noteq> of_char CHR ''0''"
    using assms(2) by (metis char_of_char)
  then have c0: "?c \<noteq> 48" by simp
  have g: "gettok (init_state (d # ds)) =
    (tok_number, (init_state (d # ds))\<lparr>LastChar := EOF, stdin := [],
       NumVal := strtod_to_int (d # ds)\<rparr>)"
    using c c0 read_number_digits [OF assms(3), of "[]" ?c]
    by (simp add: gettok_def init_state_def skip_whitespace_id ctype_defs)
  show ?thesis
    using assms(4) by (simp add: g gettok_eof strtod_to_int_def sint_small)
qed

theorem gettok_decimal_run_witness:
  "isdigit (of_char CHR ''4'') \<and> decimal ''42'' = 42 \<and>
   fst (gettok (init_state ''42'')) = tok_number \<and>
   sint (NumVal (snd (gettok (init_state ''42'')))) = 42 \<and>
   stdin (snd (gettok (init_state ''42''))) = [] \<and>
   fst (gettok (snd (gettok (init_state ''42'')))) = tok_eof"
  using gettok_decimal_run [of "CHR ''4''" "''2''"]
  by (simp add: isdigit_def decimal_def)

text \<open>
  C9. When a child call of \<^verbatim>\<open>ParseExpr\<close> inside \<^verbatim>\<open>ParseListExpr\<close> fails, the list parse
  fails at once: the loop returns the null pointer in the state the child left, whatever
  children \<open>Items\<close> holds, with any fuel that lets the child return; so does
  \<^verbatim>\<open>ParseListExpr\<close> when its first child fails. And at every depth: a list parse that
  returns has either returned the null pointer and written exactly one diagnostic, that
  of the first failure, or returned a list node and written none.
\<close>

theorem child_failure_aborts_list:
  "(ParseExpr n s = Some (None, s') \<and> n < m \<longrightarrow>
      ParseListLoop m Items s = Some (None, s')) \<and>
   (ParseExpr n (snd (getNextToken t)) = Some (None, s') \<and> Suc n < m \<longrightarrow>
      ParseListExpr m t = Some (None, s')) \<and>
   (ParseListExpr m t = Some (r, t') \<longrightarrow>
      (r = None \<and> stderr t' = stderr t @ [parse_error_line]) \<or>
      ((\<exists>xs. r = Some (ListExprAST xs)) \<and> stderr t' = stderr t))"
proof -
  have a: "ParseListLoop m Items s = Some (None, s')"
    if p: "ParseExpr n s = Some (None, s')" and q: "n < m" for s m Items
  proof -
    obtain k where m: "m = Suc k"
      using q by (cases m) simp_all
    then have "ParseExpr k s = Some (None, s')"
      using p q ParseExpr_fuel [of n s "(None, s')" k] by simp
    then show ?thesis by (simp add: m)
  qed
  have b: "ParseListExpr m t = Some (None, s')"
    if p: "ParseExpr n (snd (getNextToken t)) = Some (None, s')" and q: "Suc n < m"
  proof -
    obtain k where m: "m = Suc k"
      using q by (cases m) simp_all
    then show ?thesis using a [OF p, of k "[]"] q by simp
  qed
  have c: "(r = None \<and> stderr t' = stderr t @ [parse_error_line]) \<or>
      ((\<exists>xs. r = Some (ListExprAST xs)) \<and> stderr t' = stderr t)"
    if "ParseListExpr m t = Some (r, t')"
    using that parse_outcome [of m t r t'] by auto
  show ?thesis using a b c by blast
qed

theorem child_failure_aborts_list_witness:
  "ParseExpr (Suc 0)
     (snd (getNextToken ((init_state '')'')\<lparr>CurTok := tok_bracket_open\<rparr>))) =
     Some (None,
       \<lparr>stdin = [], stderr = [parse_error_line], LastChar = 41, IdentifierStr = '')'',
        NumVal = 0, CurTok = tok_bracket_close, NamedValues = Map.empty\<rparr>) \<and>
   ParseListLoop (Suc (Suc (Suc 0))) [NumberExprAST 7]
     (snd (getNextToken ((init_state '')'')\<lparr>CurTok := tok_bracket_open\<rparr>))) =
     Some (None,
       \<lparr>stdin = [], stderr = [parse_error_line], LastChar = 41, IdentifierStr = '')'',
        NumVal = 0, CurTok = tok_bracket_close, NamedValues = Map.empty\<rparr>) \<and>
   ParseListExpr (Suc (Suc (Suc 0)))
     ((init_state '')'')\<lparr>CurTok := tok_bracket_open\<rparr>) =
     Some (None,
       \<lparr>stdin = [], stderr = [parse_error_line], LastChar = 41, IdentifierStr = '')'',
        NumVal = 0, CurTok = tok_bracket_close, NamedValues = Map.empty\<rparr>)"
  using child_failure_aborts_list
    [where n = "Suc 0" and m = "Suc (Suc (Suc 0))" and Items = "[NumberExprAST 7]"
       and t = "(init_state '')'')\<lparr>CurTok := tok_bracket_open\<rparr>"
       and s = "snd (getNextToken
         ((init_state '')'')\<lparr>CurTok := tok_bracket_open\<rparr>))"
       and s' = "\<lparr>stdin = [], stderr = [parse_error_line], LastChar = 41,
         IdentifierStr = '')'', NumVal = 0, CurTok = tok_bracket_close,
         NamedValues = Map.empty\<rparr>"
       and r = None
       and t' = "\<lparr>stdin = [], stderr = [parse_error_line], LastChar = 41,
         IdentifierStr = '')'', NumVal = 0, CurTok = tok_bracket_close,
         NamedValues = Map.empty\<rparr>"]
  by (simp add: eval_simps parse_simps parse_error_line_def)

text \<open>
  C10. For a name that has no entry in \<^verbatim>\<open>NamedValues\<close>, the code generation of an
  identifier writes a diagnostic, returns the null pointer, and leaves an entry for the
  name, with a null value, in the table: the table has one key more than before.
\<close>

theorem IdentifierExprAST_codegen_unbound:
  assumes "Name \<notin> dom (NamedValues s)"
  shows "IdentifierExprAST_codegen Name s =
      (None, s\<lparr>NamedValues := (NamedValues s)(Name \<mapsto> None),
               stderr := stderr s @ [''Error: Unknown variable name'' @ [CHR 0x0A]]\<rparr>) \<and>
    dom (NamedValues (snd (IdentifierExprAST_codegen Name s))) =
      insert Name (dom (NamedValues s)) \<and>
    dom (NamedValues s) \<subset> dom (NamedValues (snd (IdentifierExprAST_codegen Name s)))"
  using assms
  by (auto simp add: IdentifierExprAST_codegen_def map_index_def ErrorV_def Error_def domIff)

theorem IdentifierExprAST_codegen_unbound_witness:
  "''x'' \<notin> dom (NamedValues (init_state [])) \<and>
   fst (IdentifierExprAST_codegen ''x'' (init_state [])) = None \<and>
   stderr (snd (IdentifierExprAST_codegen ''x'' (init_state []))) =
     [''Error: Unknown variable name'' @ [CHR 0x0A]] \<and>
   NamedValues (snd (IdentifierExprAST_codegen ''x'' (init_state []))) ''x'' = Some None \<and>
   dom (NamedValues (snd (IdentifierExprAST_codegen ''x'' (init_state [])))) = {''x''}"
  using IdentifierExprAST_codegen_unbound [of "''x''" "init_state []"]
  by (simp add: init_state_def)

end
